theory Spec2Isabelle
  imports Main "HOL-Library.Sublist"
begin

section \<open>Data model (src/index.ts, lines 18-58 and 112-130)\<close>

text \<open>
  A value that JavaScript may leave out (\<open>undefined\<close> or \<open>null\<close>) is an \<open>option\<close>
  with \<open>None\<close> for the missing value. The fields of the raw ticket that the code reads
  through \<open>?.\<close> or \<open>||\<close>, and the two it reads without a guard but that the
  specification discusses as possibly absent (\<open>status\<close>, \<open>created\<close>), are options; an
  unguarded read of a property of a missing object raises \<open>TypeError\<close>. Everything else
  is present, as the interface \<open>RawTicket\<close> declares it. Strings are lists of
  characters. Field names that several interfaces share are qualified by the record
  (\<open>Ticket.key\<close>, \<open>GenericIssue.key\<close>); \<open>fields\<close> is written \<open>fields'\<close>.
\<close>

datatype error = TypeError | RequestFailed

record Named =
  name :: string

record Person =
  displayName :: string

record IssueRef =
  key :: "string option"

record IssueLink =
  type :: Named
  outwardIssue :: "IssueRef option"

record RawFields =
  labels :: "string list option"
  summary :: string
  created :: "string option"
  customfield_10002 :: "string option"
  resolutiondate :: "string option"
  customfield_28100 :: "Person option"
  reporter :: "Person option"
  status :: "Named option"
  resolution :: "Named option"
  issuelinks :: "IssueLink list option"

record RawTicket =
  key :: string
  fields' :: RawFields

record Ticket =
  epic :: "string option"
  key :: string
  summary :: string
  status :: string
  created :: "string option"
  resolved :: "string option"
  svp :: "string option"
  reporter :: "string option"

record GenericIssue =
  key :: string
  title :: string
  status :: string
  created :: string
  resolved :: "string option"

type_synonym Story = GenericIssue

record Scr = GenericIssue +
  reporter :: "string option"

record Epic = GenericIssue +
  svp :: "string option"
  stories :: "Story list"
  scrs :: "Scr list"

text \<open>The elements of \<open>flattened\<close> (lines 194-195): \<open>{ epic, type, child }\<close>, the child
  being a story in the first half and a clarification request in the second.\<close>

datatype Child = StoryChild Story | ScrChild Scr

record Row =
  epic :: Epic
  type :: string
  child :: Child

text \<open>The body of the request posted by \<open>readJiraPage\<close> (lines 65-82).\<close>

record SearchRequest =
  jql :: string
  fields' :: "string list"
  startAt :: nat
  maxResults :: nat

text \<open>
  The HTTP client is the environment of the program: it answers a request in a state
  \<open>'s\<close> of the remote side with either a failure or \<open>response.data.issues\<close> (which may
  be missing), and a new state.
\<close>

type_synonym 's client = "SearchRequest \<Rightarrow> 's \<Rightarrow> (error + RawTicket list option) \<times> 's"

section \<open>String primitives of the language\<close>

text \<open>\<open>s.startsWith(searchString)\<close>.\<close>

definition startsWith :: "string \<Rightarrow> string \<Rightarrow> bool" where
  "startsWith s searchString = (take (length searchString) s = searchString)"

text \<open>\<open>s.substring(start, end)\<close> on natural indices: both are clamped to the length and
  swapped when \<open>start > end\<close>.\<close>

definition substring :: "string \<Rightarrow> nat \<Rightarrow> nat \<Rightarrow> string" where
  "substring s start end' =
     (let a = min start (length s); b = min end' (length s)
      in take (max a b - min a b) (drop (min a b) s))"

section \<open>The fetcher: readJiraPage and readAllJiraTickets (lines 63-97)\<close>

definition PAGE_SIZE :: nat where
  "PAGE_SIZE = 250"

definition readJiraPage ::
  "'s client \<Rightarrow> string \<Rightarrow> nat \<Rightarrow> 's \<Rightarrow> (error + RawTicket list option) \<times> 's" where
  "readJiraPage client q startAt' s =
     client \<lparr> jql = q,
              SearchRequest.fields' =
                [''id'', ''reporter'', ''customfield_10002'', ''customfield_28100'', ''summary'',
                 ''created'', ''resolutiondate'', ''status'', ''issuelinks'', ''labels'',
                 ''resolution''],
              startAt = startAt',
              maxResults = PAGE_SIZE \<rparr> s"

text \<open>
  The loop \<open>for (let i = 0; true; i += PAGE_SIZE)\<close> with its accumulator \<open>tickets\<close>. It has
  no bound, so the function is partial: \<open>None\<close> is the run that never leaves the loop.
  \<open>issues?.length\<close> is truthy exactly for a list that is present and not empty. The offset
  is a natural number (the program's doubles are exact far beyond any reachable offset).
\<close>

partial_function (option) readAllJiraTickets_from ::
  "'s client \<Rightarrow> string \<Rightarrow> nat \<Rightarrow> RawTicket list \<Rightarrow> 's \<Rightarrow> ((error + RawTicket list) \<times> 's) option"
where
  "readAllJiraTickets_from client q i tickets s =
     (case readJiraPage client q i s of
        (Inl e, s') \<Rightarrow> Some (Inl e, s')
      | (Inr issues, s') \<Rightarrow>
          (case issues of
             None \<Rightarrow> Some (Inr tickets, s')
           | Some [] \<Rightarrow> Some (Inr tickets, s')
           | Some (x # xs) \<Rightarrow>
               readAllJiraTickets_from client q (i + PAGE_SIZE) (tickets @ x # xs) s'))"

definition readAllJiraTickets ::
  "'s client \<Rightarrow> string \<Rightarrow> 's \<Rightarrow> ((error + RawTicket list) \<times> 's) option" where
  "readAllJiraTickets client q s = readAllJiraTickets_from client q 0 [] s"

section \<open>The normalizer: the callback of \<open>.map\<close> in getTickets (lines 100-109)\<close>

text \<open>The predicate given to \<open>find\<close> (line 101):
  \<open>link.type.name === 'Relates' && link.outwardIssue?.key?.startsWith('CENPRO')\<close>.\<close>

definition relates_to_project :: "IssueLink \<Rightarrow> bool" where
  "relates_to_project link =
     (name (IssueLink.type link) = ''Relates'' \<and>
      (case outwardIssue link of
         None \<Rightarrow> False
       | Some issue \<Rightarrow>
           (case IssueRef.key issue of
              None \<Rightarrow> False
            | Some k \<Rightarrow> startsWith k ''CENPRO'')))"

text \<open>\<open>t.fields.issuelinks?.find(...)?.outwardIssue.key\<close>: the read of \<open>outwardIssue.key\<close>
  on the link found has no guard.\<close>

definition linked_epic :: "RawFields \<Rightarrow> error + string option" where
  "linked_epic f =
     (case issuelinks f of
        None \<Rightarrow> Inr None
      | Some links \<Rightarrow>
          (case find relates_to_project links of
             None \<Rightarrow> Inr None
           | Some link \<Rightarrow>
               (case outwardIssue link of
                  None \<Rightarrow> Inl TypeError
                | Some issue \<Rightarrow> Inr (IssueRef.key issue))))"

text \<open>\<open>t.fields.customfield_10002 || ...\<close>: the left operand is taken when it is truthy,
  that is, a string other than the empty one.\<close>

definition epic_of :: "RawFields \<Rightarrow> error + string option" where
  "epic_of f =
     (case customfield_10002 f of
        None \<Rightarrow> linked_epic f
      | Some e \<Rightarrow> if e \<noteq> [] then Inr (Some e) else linked_epic f)"

text \<open>Line 103. The conditional operator binds weaker than \<open>||\<close>:
  \<open>status.name === 'Done' ? ((labels?.includes('ExecReject') || resolution?.name !== 'Done')
     ? 'Rejected' : 'Done') : status.name\<close>. The read \<open>t.fields.status.name\<close> has no
  guard.\<close>

definition status_of :: "RawFields \<Rightarrow> error + string" where
  "status_of f =
     (case RawFields.status f of
        None \<Rightarrow> Inl TypeError
      | Some st \<Rightarrow>
          if name st = ''Done'' then
            (if (case labels f of None \<Rightarrow> False | Some ls \<Rightarrow> ''ExecReject'' \<in> set ls)
                \<or> (case resolution f of None \<Rightarrow> True | Some r \<Rightarrow> name r \<noteq> ''Done'')
             then Inr ''Rejected'' else Inr ''Done'')
          else Inr (name st))"

definition normalizeTicket :: "RawTicket \<Rightarrow> error + Ticket" where
  "normalizeTicket t =
     (case epic_of (RawTicket.fields' t) of
        Inl e \<Rightarrow> Inl e
      | Inr ep \<Rightarrow>
          (case status_of (RawTicket.fields' t) of
             Inl e \<Rightarrow> Inl e
           | Inr st \<Rightarrow>
               Inr \<lparr> Ticket.epic = ep,
                     Ticket.key = RawTicket.key t,
                     Ticket.summary = RawFields.summary (RawTicket.fields' t),
                     Ticket.status = st,
                     Ticket.created = RawFields.created (RawTicket.fields' t),
                     Ticket.resolved = resolutiondate (RawTicket.fields' t),
                     Ticket.svp = map_option displayName (customfield_28100 (RawTicket.fields' t)),
                     Ticket.reporter =
                       map_option displayName (RawFields.reporter (RawTicket.fields' t)) \<rparr>))"

section \<open>getTickets (lines 60-110)\<close>

text \<open>\<open>Array.prototype.map\<close> with a callback that may raise: the first failure ends it.\<close>

fun map_all :: "('a \<Rightarrow> error + 'b) \<Rightarrow> 'a list \<Rightarrow> error + 'b list" where
  "map_all f [] = Inr []"
| "map_all f (x # xs) =
     (case f x of
        Inl e \<Rightarrow> Inl e
      | Inr y \<Rightarrow> (case map_all f xs of Inl e \<Rightarrow> Inl e | Inr ys \<Rightarrow> Inr (y # ys)))"

definition getTickets ::
  "'s client \<Rightarrow> string \<Rightarrow> 's \<Rightarrow> ((error + Ticket list) \<times> 's) option" where
  "getTickets client q s =
     (case readAllJiraTickets client q s of
        None \<Rightarrow> None
      | Some (Inl e, s') \<Rightarrow> Some (Inl e, s')
      | Some (Inr tickets, s') \<Rightarrow> Some (map_all normalizeTicket tickets, s'))"

section \<open>toGenericIssue (lines 132-140)\<close>

text \<open>\<open>ticket.created.substring(0, 10)\<close> has no guard; \<open>ticket.resolved?.substring(0, 10)\<close>
  has one.\<close>

definition toGenericIssue :: "Ticket \<Rightarrow> error + GenericIssue" where
  "toGenericIssue ticket =
     (case Ticket.created ticket of
        None \<Rightarrow> Inl TypeError
      | Some c \<Rightarrow>
          Inr \<lparr> GenericIssue.key = Ticket.key ticket,
                title = Ticket.summary ticket,
                GenericIssue.status = Ticket.status ticket,
                GenericIssue.created = substring c 0 10,
                GenericIssue.resolved =
                  map_option (\<lambda>r. substring r 0 10) (Ticket.resolved ticket) \<rparr>)"

section \<open>The epic mapping: a plain object used as a dictionary (line 167)\<close>

text \<open>
  \<open>consolidated\<close> is an object literal \<open>{}\<close> indexed by ticket keys. Three rules of the
  language decide what the program does with it:
  \<^item> \<open>Object.values\<close> lists the own properties whose name is an array index (a decimal
    numeral without leading zero, below \<open>2^32 - 1\<close>) first, in ascending numeric order, and
    the others after them, in the order of their creation;
  \<^item> a read \<open>consolidated[k]\<close> that finds no own property goes on to the prototype, so
    that the names of \<open>Object.prototype\<close> are found with a truthy value;
  \<^item> the assignment \<open>consolidated['__proto__'] = v\<close> creates no property: it makes the
    object \<open>v\<close> the prototype of \<open>consolidated\<close>.
  The record keeps the own properties in creation order, and the epic object that an
  assignment to \<open>__proto__\<close> has made the prototype, if any.
\<close>

record Consolidated =
  props :: "(string \<times> Epic) list"
  proto :: "Epic option"

definition numeric_value :: "string \<Rightarrow> int" where
  "numeric_value k = foldl (\<lambda>n c. 10 * n + (of_char c - 48)) 0 k"

definition is_array_index :: "string \<Rightarrow> bool" where
  "is_array_index k =
     (k \<noteq> [] \<and> list_all (\<lambda>c. c \<in> set ''0123456789'') k \<and>
      (if hd k = CHR ''0'' then k = ''0'' else True) \<and>
      numeric_value k < 4294967295)"

text \<open>\<open>Object.values(consolidated)\<close>.\<close>

definition own_values :: "Consolidated \<Rightarrow> Epic list" where
  "own_values c =
     map snd (sort_key (\<lambda>p. numeric_value (fst p)) (filter (\<lambda>p. is_array_index (fst p)) (props c))
              @ filter (\<lambda>p. \<not> is_array_index (fst p)) (props c))"

definition object_prototype_names :: "string list" where
  "object_prototype_names =
     [''constructor'', ''__defineGetter__'', ''__defineSetter__'', ''hasOwnProperty'',
      ''__lookupGetter__'', ''__lookupSetter__'', ''isPrototypeOf'', ''propertyIsEnumerable'',
      ''toString'', ''valueOf'', ''__proto__'', ''toLocaleString'']"

text \<open>
  What the program can tell about the value of \<open>consolidated[k]\<close>: an epic stored under
  \<open>k\<close>, the epic that is the prototype (read through \<open>__proto__\<close>), some other truthy
  value (a string, an array, a function, \<open>Object.prototype\<close>), none of which has a
  property \<open>stories\<close> or \<open>scrs\<close>, or a falsy value.
\<close>

datatype Lookup = OwnEpic Epic | ProtoEpic Epic | Truthy | Falsy

definition truthy :: "bool \<Rightarrow> Lookup" where
  "truthy b = (if b then Truthy else Falsy)"

text \<open>The properties of an epic object (lines 169-174), for the reads that reach it as
  the prototype; \<open>None\<close> when it has no property of that name.\<close>

definition epic_property :: "Epic \<Rightarrow> string \<Rightarrow> Lookup option" where
  "epic_property p k =
     (if k = ''key'' then Some (truthy (GenericIssue.key p \<noteq> []))
      else if k = ''created'' then Some (truthy (GenericIssue.created p \<noteq> []))
      else if k = ''status'' then Some (truthy (GenericIssue.status p \<noteq> []))
      else if k = ''title'' then Some (truthy (title p \<noteq> []))
      else if k = ''resolved'' then
        Some (truthy (case GenericIssue.resolved p of None \<Rightarrow> False | Some r \<Rightarrow> r \<noteq> []))
      else if k = ''svp'' then
        Some (truthy (case Epic.svp p of None \<Rightarrow> False | Some r \<Rightarrow> r \<noteq> []))
      else if k = ''stories'' \<or> k = ''scrs'' then Some Truthy
      else None)"

text \<open>\<open>consolidated[k]\<close> as a read.\<close>

definition get_property :: "Consolidated \<Rightarrow> string \<Rightarrow> Lookup" where
  "get_property c k =
     (case map_of (props c) k of
        Some e \<Rightarrow> OwnEpic e
      | None \<Rightarrow>
          (case (case proto c of None \<Rightarrow> None | Some p \<Rightarrow> epic_property p k) of
             Some v \<Rightarrow> v
           | None \<Rightarrow>
               if k = ''__proto__'' then (case proto c of None \<Rightarrow> Truthy | Some p \<Rightarrow> ProtoEpic p)
               else truthy (k \<in> set object_prototype_names)))"

text \<open>The own property \<open>k\<close> gets the value \<open>e\<close> and keeps its place.\<close>

definition store_own :: "Consolidated \<Rightarrow> string \<Rightarrow> Epic \<Rightarrow> Consolidated" where
  "store_own c k e =
     c \<lparr> props := map (\<lambda>p. if fst p = k then (k, e) else p) (props c) \<rparr>"

text \<open>\<open>consolidated[k] = e\<close>.\<close>

definition set_property :: "Consolidated \<Rightarrow> string \<Rightarrow> Epic \<Rightarrow> Consolidated" where
  "set_property c k e =
     (if k = ''__proto__'' then c \<lparr> proto := Some e \<rparr>
      else if k \<in> set (map fst (props c)) then store_own c k e
      else c \<lparr> props := props c @ [(k, e)] \<rparr>)"

text \<open>The property name that a value used as an index stands for: \<open>consolidated[undefined]\<close>
  reads the property \<open>undefined\<close>.\<close>

definition property_key :: "string option \<Rightarrow> string" where
  "property_key v = (case v of None \<Rightarrow> ''undefined'' | Some k \<Rightarrow> k)"

section \<open>main, from the mapping to the flattened rows (lines 167-195)\<close>

text \<open>A \<open>for ... of\<close> loop whose body may raise.\<close>

fun for_each :: "('s \<Rightarrow> 'a \<Rightarrow> error + 's) \<Rightarrow> 'a list \<Rightarrow> 's \<Rightarrow> error + 's" where
  "for_each body [] s = Inr s"
| "for_each body (x # xs) s =
     (case body s x of Inl e \<Rightarrow> Inl e | Inr s' \<Rightarrow> for_each body xs s')"

text \<open>The body of the loop over \<open>epics\<close> (lines 168-175).\<close>

definition add_epic :: "Consolidated \<Rightarrow> Ticket \<Rightarrow> error + Consolidated" where
  "add_epic c epic' =
     (case toGenericIssue epic' of
        Inl e \<Rightarrow> Inl e
      | Inr g \<Rightarrow>
          Inr (set_property c (Ticket.key epic')
                 \<lparr> GenericIssue.key = GenericIssue.key g, title = title g,
                   GenericIssue.status = GenericIssue.status g,
                   GenericIssue.created = GenericIssue.created g,
                   GenericIssue.resolved = GenericIssue.resolved g,
                   Epic.svp = Ticket.svp epic', stories = [], scrs = [] \<rparr>))"

text \<open>The body of the loop over \<open>stories\<close> (lines 177-183):
  \<open>if (consolidated[story.epic]) consolidated[story.epic].stories.push({...})\<close>.
  \<open>push\<close> on the missing \<open>stories\<close> of a value that is no epic raises.\<close>

definition add_story :: "Consolidated \<Rightarrow> Ticket \<Rightarrow> error + Consolidated" where
  "add_story c story =
     (case get_property c (property_key (Ticket.epic story)) of
        Falsy \<Rightarrow> Inr c
      | Truthy \<Rightarrow> Inl TypeError
      | OwnEpic e \<Rightarrow>
          (case toGenericIssue story of
             Inl err \<Rightarrow> Inl err
           | Inr g \<Rightarrow>
               Inr (store_own c (property_key (Ticket.epic story))
                      (e \<lparr> stories := stories e @ [g] \<rparr>)))
      | ProtoEpic p \<Rightarrow>
          (case toGenericIssue story of
             Inl err \<Rightarrow> Inl err
           | Inr g \<Rightarrow> Inr (c \<lparr> proto := Some (p \<lparr> stories := stories p @ [g] \<rparr>) \<rparr>)))"

text \<open>\<open>{ ...toGenericIssue(scr), reporter: scr.reporter }\<close>.\<close>

definition toScr :: "GenericIssue \<Rightarrow> string option \<Rightarrow> Scr" where
  "toScr g r =
     \<lparr> GenericIssue.key = GenericIssue.key g, title = title g,
       GenericIssue.status = GenericIssue.status g,
       GenericIssue.created = GenericIssue.created g,
       GenericIssue.resolved = GenericIssue.resolved g,
       Scr.reporter = r \<rparr>"

text \<open>The body of the loop over \<open>scrs\<close> (lines 185-192).\<close>

definition add_scr :: "Consolidated \<Rightarrow> Ticket \<Rightarrow> error + Consolidated" where
  "add_scr c scr =
     (case get_property c (property_key (Ticket.epic scr)) of
        Falsy \<Rightarrow> Inr c
      | Truthy \<Rightarrow> Inl TypeError
      | OwnEpic e \<Rightarrow>
          (case toGenericIssue scr of
             Inl err \<Rightarrow> Inl err
           | Inr g \<Rightarrow>
               Inr (store_own c (property_key (Ticket.epic scr))
                      (e \<lparr> scrs := scrs e @ [toScr g (Ticket.reporter scr)] \<rparr>)))
      | ProtoEpic p \<Rightarrow>
          (case toGenericIssue scr of
             Inl err \<Rightarrow> Inl err
           | Inr g \<Rightarrow>
               Inr (c \<lparr> proto :=
                          Some (p \<lparr> scrs := scrs p @ [toScr g (Ticket.reporter scr)] \<rparr>) \<rparr>)))"

text \<open>Lines 194-195.\<close>

definition flatten :: "Consolidated \<Rightarrow> Row list" where
  "flatten c =
     concat (map (\<lambda>e. map (\<lambda>story. \<lparr> Row.epic = e, Row.type = ''Story'',
                                      child = StoryChild story \<rparr>) (stories e))
                 (own_values c))
     @ concat (map (\<lambda>e. map (\<lambda>scr. \<lparr> Row.epic = e, Row.type = ''SCR'',
                                      child = ScrChild scr \<rparr>) (scrs e))
                   (own_values c))"

text \<open>\<open>main\<close> from line 167 on, as a function of the three lists that the calls of
  \<open>getTickets\<close> have returned; the result is what is handed to the CSV writer.\<close>

definition main_rows :: "Ticket list \<Rightarrow> Ticket list \<Rightarrow> Ticket list \<Rightarrow> error + Row list" where
  "main_rows scrs' stories' epics =
     (case for_each add_epic epics \<lparr> props = [], proto = None \<rparr> of
        Inl e \<Rightarrow> Inl e
      | Inr c1 \<Rightarrow>
          (case for_each add_story stories' c1 of
             Inl e \<Rightarrow> Inl e
           | Inr c2 \<Rightarrow>
               (case for_each add_scr scrs' c2 of
                  Inl e \<Rightarrow> Inl e
                | Inr c3 \<Rightarrow> Inr (flatten c3))))"

section \<open>The specification's notions\<close>

text \<open>
  The definitions of this section follow the words of the specification, not the code;
  the theorems compare the code with them.
\<close>

text \<open>The keys of the links "whose link type is named Relates and whose linked-issue key
  starts with the project prefix", in link-list order.\<close>

definition qualifying_keys :: "IssueLink list \<Rightarrow> string list" where
  "qualifying_keys links =
     concat (map (\<lambda>link.
       case outwardIssue link of
         None \<Rightarrow> []
       | Some issue \<Rightarrow>
           (case IssueRef.key issue of
              None \<Rightarrow> []
            | Some k \<Rightarrow>
                if name (IssueLink.type link) = ''Relates'' \<and> prefix ''CENPRO'' k then [k]
                else [])) links)"

definition first_qualifying_key :: "IssueLink list option \<Rightarrow> string option" where
  "first_qualifying_key links =
     (case links of
        None \<Rightarrow> None
      | Some ls \<Rightarrow> (case qualifying_keys ls of [] \<Rightarrow> None | k # ks \<Rightarrow> Some k))"

text \<open>The request for the page number \<open>k\<close>: 250 records from the offset \<open>250 * k\<close>.\<close>

definition page_request :: "string \<Rightarrow> nat \<Rightarrow> SearchRequest" where
  "page_request q k =
     \<lparr> jql = q,
       SearchRequest.fields' =
         [''id'', ''reporter'', ''customfield_10002'', ''customfield_28100'', ''summary'',
          ''created'', ''resolutiondate'', ''status'', ''issuelinks'', ''labels'',
          ''resolution''],
       startAt = 250 * k,
       maxResults = 250 \<rparr>"

text \<open>
  The order in which the epics were encountered: the keys of the epic tickets, each at
  its first occurrence. An epic whose key is \<open>__proto__\<close> is never inserted into the
  mapping.
\<close>

definition inserted_keys :: "Ticket list \<Rightarrow> string list" where
  "inserted_keys epics =
     rev (remdups (rev (filter (\<lambda>k. k \<noteq> ''__proto__'') (map Ticket.key epics))))"

text \<open>The tickets that name the epic \<open>k\<close>, in the order of their list (the order in
  which the join appends them).\<close>

definition children_of :: "string \<Rightarrow> Ticket list \<Rightarrow> Ticket list" where
  "children_of k ts = filter (\<lambda>t. property_key (Ticket.epic t) = k) ts"

text \<open>
  The order of the rows that the specification describes, each row given by the key of
  its epic, its type and the ticket it comes from: all stories before all clarification
  requests, within each group epic by epic in insertion order, within an epic in append
  order.
\<close>

definition expected_order ::
  "Ticket list \<Rightarrow> Ticket list \<Rightarrow> Ticket list \<Rightarrow> (string \<times> string \<times> Ticket) list" where
  "expected_order scrs' stories' epics =
     concat (map (\<lambda>k. map (\<lambda>t. (k, ''Story'', t)) (children_of k stories')) (inserted_keys epics))
     @ concat (map (\<lambda>k. map (\<lambda>t. (k, ''SCR'', t)) (children_of k scrs')) (inserted_keys epics))"

text \<open>A row is the row of such an entry when it has that epic key and that type, and its
  child is the projection of that ticket.\<close>

definition row_of :: "Row \<Rightarrow> string \<times> string \<times> Ticket \<Rightarrow> bool" where
  "row_of r x =
     (case x of (k, ty, t) \<Rightarrow>
        GenericIssue.key (Row.epic r) = k \<and> Row.type r = ty \<and>
        (case child r of
           StoryChild g \<Rightarrow> ty = ''Story'' \<and> toGenericIssue t = Inr g
         | ScrChild s \<Rightarrow>
             ty = ''SCR'' \<and> toGenericIssue t = Inr (GenericIssue.truncate s) \<and>
             Scr.reporter s = Ticket.reporter t))"

text \<open>The key of the epic, the type and the key of the child of a row, and of an entry
  of the expected order.\<close>

definition child_key :: "Child \<Rightarrow> string" where
  "child_key ch = (case ch of StoryChild g \<Rightarrow> GenericIssue.key g | ScrChild s \<Rightarrow> GenericIssue.key s)"

definition row_keys :: "Row \<Rightarrow> string \<times> string \<times> string" where
  "row_keys r = (GenericIssue.key (Row.epic r), Row.type r, child_key (child r))"

definition entry_keys :: "string \<times> string \<times> Ticket \<Rightarrow> string \<times> string \<times> string" where
  "entry_keys x = (case x of (k, ty, t) \<Rightarrow> (k, ty, Ticket.key t))"

text \<open>
  The property names that the mapping object inherits: those of \<open>Object.prototype\<close>
  and, for the case that an epic object has become its prototype, those of an epic
  object.
\<close>

definition inherited_name :: "string \<Rightarrow> bool" where
  "inherited_name k =
     (k \<in> set object_prototype_names \<or>
      k \<in> set [''key'', ''created'', ''status'', ''title'', ''resolved'', ''svp'', ''stories'',
                ''scrs''])"

section \<open>Auxiliary notions of the proofs\<close>

text \<open>The projections of the tickets of a list that have one, as stories and as
  clarification requests.\<close>

definition issues_of :: "Ticket list \<Rightarrow> GenericIssue list" where
  "issues_of ts = concat (map (\<lambda>t. case toGenericIssue t of Inl e \<Rightarrow> [] | Inr g \<Rightarrow> [g]) ts)"

definition scrs_of :: "Ticket list \<Rightarrow> Scr list" where
  "scrs_of ts =
     concat (map (\<lambda>t. case toGenericIssue t of Inl e \<Rightarrow> []
                       | Inr g \<Rightarrow> [toScr g (Ticket.reporter t)]) ts)"

text \<open>An entry of the mapping as the loop over the epics leaves it.\<close>

definition fresh :: "string \<times> Epic \<Rightarrow> bool" where
  "fresh p = (GenericIssue.key (snd p) = fst p \<and> stories (snd p) = [] \<and> scrs (snd p) = [])"

text \<open>The epic of an entry once the two loops over the children have run.\<close>

definition with_children :: "Ticket list \<Rightarrow> Ticket list \<Rightarrow> string \<times> Epic \<Rightarrow> Epic" where
  "with_children scrs' stories' p =
     (snd p) \<lparr> stories := stories (snd p) @ issues_of (children_of (fst p) stories'),
               scrs := scrs (snd p) @ scrs_of (children_of (fst p) scrs') \<rparr>"

section \<open>Example inputs\<close>

definition minimal_fields :: RawFields where
  "minimal_fields =
     \<lparr> labels = None, RawFields.summary = ''Login page'',
       RawFields.created = Some ''2023-05-01T10:00:00.000Z'',
       customfield_10002 = None, resolutiondate = None, customfield_28100 = None,
       RawFields.reporter = None, RawFields.status = Some \<lparr>name = ''Done''\<rparr>,
       resolution = None, issuelinks = None \<rparr>"

definition relates_link :: "string \<Rightarrow> IssueLink" where
  "relates_link k =
     \<lparr> IssueLink.type = \<lparr>name = ''Relates''\<rparr>,
       outwardIssue = Some \<lparr>IssueRef.key = Some k\<rparr> \<rparr>"

definition ticket_unresolved :: RawTicket where
  "ticket_unresolved = \<lparr> RawTicket.key = ''CENPRO-7'', RawTicket.fields' = minimal_fields \<rparr>"

definition ticket_resolved :: RawTicket where
  "ticket_resolved =
     \<lparr> RawTicket.key = ''CENPRO-11'',
       RawTicket.fields' = minimal_fields
         \<lparr> labels := Some [''Backend''], resolution := Some \<lparr>name = ''Done''\<rparr> \<rparr> \<rparr>"

definition ticket_in_progress :: RawTicket where
  "ticket_in_progress =
     \<lparr> RawTicket.key = ''CENPRO-12'',
       RawTicket.fields' = minimal_fields
         \<lparr> labels := Some [''ExecReject''], RawFields.status := Some \<lparr>name = ''In Progress''\<rparr> \<rparr> \<rparr>"

definition ticket_labelled :: RawTicket where
  "ticket_labelled =
     \<lparr> RawTicket.key = ''CENPRO-13'',
       RawTicket.fields' = minimal_fields \<lparr> labels := Some [''ExecReject''] \<rparr> \<rparr>"

definition ticket_with_epic_link :: RawTicket where
  "ticket_with_epic_link =
     \<lparr> RawTicket.key = ''CENPRO-14'',
       RawTicket.fields' = minimal_fields
         \<lparr> customfield_10002 := Some ''CENPRO-5'',
           issuelinks := Some [relates_link ''CENPRO-42''] \<rparr> \<rparr>"

definition ticket_empty_epic_link :: RawTicket where
  "ticket_empty_epic_link =
     \<lparr> RawTicket.key = ''CENPRO-8'',
       RawTicket.fields' = minimal_fields
         \<lparr> customfield_10002 := Some [],
           issuelinks := Some [relates_link ''OTHER-1'', relates_link ''CENPRO-42'',
                               relates_link ''CENPRO-43''] \<rparr> \<rparr>"

definition ticket_without_status :: RawTicket where
  "ticket_without_status =
     \<lparr> RawTicket.key = ''CENPRO-9'',
       RawTicket.fields' = minimal_fields \<lparr> RawFields.status := None \<rparr> \<rparr>"

definition ticket_without_created :: RawTicket where
  "ticket_without_created =
     \<lparr> RawTicket.key = ''CENPRO-10'',
       RawTicket.fields' = minimal_fields \<lparr> RawFields.created := None \<rparr> \<rparr>"

definition ticket_may :: Ticket where
  "ticket_may =
     \<lparr> Ticket.epic = None, Ticket.key = ''CENPRO-7'', Ticket.summary = ''Login page'',
       Ticket.status = ''Done'', Ticket.created = Some ''2023-05-01T10:00:00.000Z'',
       Ticket.resolved = Some ''2023-06-15T08:30:00.000Z'', Ticket.svp = None,
       Ticket.reporter = None \<rparr>"

text \<open>A remote side that serves two pages of 250 records and empty pages after them; its
  state is the list of the requests it has received.\<close>

definition two_pages :: "SearchRequest list client" where
  "two_pages r log =
     (Inr (Some (if length log < 2 then replicate 250 ticket_unresolved else [])), log @ [r])"

text \<open>A normalized ticket with the key \<open>k\<close> and the epic \<open>e\<close>.\<close>

definition ticket_for :: "string \<Rightarrow> string option \<Rightarrow> Ticket" where
  "ticket_for k e =
     \<lparr> Ticket.epic = e, Ticket.key = k, Ticket.summary = ''Summary of '' @ k,
       Ticket.status = ''Done'', Ticket.created = Some ''2023-05-01T10:00:00.000Z'',
       Ticket.resolved = None, Ticket.svp = None, Ticket.reporter = Some ''Ada'' \<rparr>"

definition example_epics :: "Ticket list" where
  "example_epics = [ticket_for ''CENPRO-2'' None, ticket_for ''CENPRO-1'' None, ticket_for ''CENPRO-2'' None]"

definition example_stories :: "Ticket list" where
  "example_stories =
     [ticket_for ''CENPRO-11'' (Some ''CENPRO-1''), ticket_for ''CENPRO-12'' (Some ''CENPRO-2''),
      ticket_for ''CENPRO-13'' (Some ''CENPRO-1''), ticket_for ''CENPRO-14'' (Some ''CENPRO-9'')]"

definition example_scrs :: "Ticket list" where
  "example_scrs = [ticket_for ''CENPRO-21'' (Some ''CENPRO-2''), ticket_for ''CENPRO-22'' None]"

text \<open>A mapping with an epic that has a story and an epic without children.\<close>

definition example_mapping :: Consolidated where
  "example_mapping =
     \<lparr> props =
         [(''CENPRO-1'',
           \<lparr> GenericIssue.key = ''CENPRO-1'', title = ''Checkout'', GenericIssue.status = ''Done'',
             GenericIssue.created = ''2023-05-01'', GenericIssue.resolved = None,
             Epic.svp = Some ''Grace'',
             stories = [\<lparr> GenericIssue.key = ''CENPRO-11'', title = ''Cart'',
                          GenericIssue.status = ''Done'', GenericIssue.created = ''2023-05-02'',
                          GenericIssue.resolved = None \<rparr>],
             scrs = [] \<rparr>),
          (''CENPRO-3'',
           \<lparr> GenericIssue.key = ''CENPRO-3'', title = ''Search'', GenericIssue.status = ''Done'',
             GenericIssue.created = ''2023-05-03'', GenericIssue.resolved = None,
             Epic.svp = None, stories = [], scrs = [] \<rparr>)],
       proto = None \<rparr>"

definition childless_epic :: Epic where
  "childless_epic =
     \<lparr> GenericIssue.key = ''CENPRO-3'', title = ''Search'', GenericIssue.status = ''Done'',
       GenericIssue.created = ''2023-05-03'', GenericIssue.resolved = None,
       Epic.svp = None, stories = [], scrs = [] \<rparr>"

section \<open>The normalizer: status and epic\<close>

lemma startsWith_prefix: "startsWith s p = prefix p s"
  unfolding startsWith_def
  by (metis append_eq_conv_conj prefix_def)

lemma find_relates:
  "(case find relates_to_project ls of
      None \<Rightarrow> Inr None
    | Some link \<Rightarrow>
        (case outwardIssue link of
           None \<Rightarrow> Inl TypeError
         | Some issue \<Rightarrow> Inr (IssueRef.key issue)))
   = Inr (case qualifying_keys ls of [] \<Rightarrow> None | k # ks \<Rightarrow> Some k)"
proof (induction ls)
  case Nil
  show ?case by (simp add: qualifying_keys_def)
next
  case (Cons l ls)
  then show ?case
    by (auto simp: qualifying_keys_def relates_to_project_def startsWith_prefix
             split: option.splits list.splits)
qed

lemma linked_epic_eq: "linked_epic f = Inr (first_qualifying_key (issuelinks f))"
  by (simp add: linked_epic_def first_qualifying_key_def find_relates split: option.splits)

lemma epic_of_eq:
  "epic_of f =
     Inr (case customfield_10002 f of
            None \<Rightarrow> first_qualifying_key (issuelinks f)
          | Some e \<Rightarrow> if e = [] then first_qualifying_key (issuelinks f) else Some e)"
  by (simp add: epic_of_def linked_epic_eq split: option.splits)

lemma status_of_epic_link: "status_of (f \<lparr> customfield_10002 := v \<rparr>) = status_of f"
  by (simp add: status_of_def)

lemmas example_tickets =
  minimal_fields_def relates_link_def ticket_unresolved_def ticket_resolved_def
  ticket_in_progress_def ticket_labelled_def ticket_with_epic_link_def
  ticket_empty_epic_link_def ticket_without_status_def ticket_without_created_def

text \<open>
  C1. For a raw ticket with a status, normalization succeeds and the normalized status
  is "Rejected" if the raw status name is "Done" and the labels contain "ExecReject" or
  the resolution name is not "Done" (a missing resolution has no name "Done"), it is
  "Done" if the raw status name is "Done" and neither holds, and it is the raw status
  name otherwise.
\<close>

theorem status_derivation:
  assumes "RawFields.status (RawTicket.fields' t) = Some st"
  shows "\<exists>tk. normalizeTicket t = Inr tk \<and>
           Ticket.status tk =
             (if name st = ''Done'' then
                (if ''ExecReject'' \<in> (case labels (RawTicket.fields' t) of
                                         None \<Rightarrow> {} | Some ls \<Rightarrow> set ls)
                    \<or> map_option name (resolution (RawTicket.fields' t)) \<noteq> Some ''Done''
                 then ''Rejected'' else ''Done'')
              else name st)"
  using assms
  by (auto simp: normalizeTicket_def epic_of_eq status_of_def split: option.splits)

theorem status_derivation_witness:
  "(\<exists>tk. normalizeTicket ticket_labelled = Inr tk \<and> Ticket.status tk = ''Rejected'') \<and>
   (\<exists>tk. normalizeTicket ticket_resolved = Inr tk \<and> Ticket.status tk = ''Done'') \<and>
   (\<exists>tk. normalizeTicket ticket_in_progress = Inr tk \<and> Ticket.status tk = ''In Progress'')"
  using status_derivation [of ticket_labelled "\<lparr>name = ''Done''\<rparr>"]
    status_derivation [of ticket_resolved "\<lparr>name = ''Done''\<rparr>"]
    status_derivation [of ticket_in_progress "\<lparr>name = ''In Progress''\<rparr>"]
  by (simp add: example_tickets)

text \<open>
  C2, as stated, fails on an epic-link field that is present and empty: the ticket below
  has the field \<open>""\<close> and gets the epic of its first qualifying link.
\<close>

theorem epic_link_present_counterexample:
  "customfield_10002 (RawTicket.fields' ticket_empty_epic_link) = Some [] \<and>
   map_sum id Ticket.epic (normalizeTicket ticket_empty_epic_link) = Inr (Some ''CENPRO-42'')"
  by (simp add: example_tickets normalizeTicket_def epic_of_def linked_epic_def
        relates_to_project_def startsWith_def status_of_def)

text \<open>
  C2, amended. For a raw ticket with a status, normalization succeeds and the normalized
  epic is the explicit epic-link field when that field is present and not the empty
  string; otherwise it is the linked-issue key of the first issue link, in link-list
  order, whose type is named "Relates" and whose linked-issue key starts with "CENPRO";
  it is undefined when there is no such link.
\<close>

theorem epic_resolution:
  assumes "RawFields.status (RawTicket.fields' t) = Some st"
  shows "\<exists>tk. normalizeTicket t = Inr tk \<and>
           Ticket.epic tk =
             (case customfield_10002 (RawTicket.fields' t) of
                None \<Rightarrow> first_qualifying_key (issuelinks (RawTicket.fields' t))
              | Some e \<Rightarrow>
                  if e = [] then first_qualifying_key (issuelinks (RawTicket.fields' t))
                  else Some e)"
  using assms
  by (auto simp: normalizeTicket_def epic_of_eq status_of_def split: option.splits)

theorem epic_resolution_witness:
  "(\<exists>tk. normalizeTicket ticket_with_epic_link = Inr tk \<and> Ticket.epic tk = Some ''CENPRO-5'') \<and>
   (\<exists>tk. normalizeTicket ticket_empty_epic_link = Inr tk \<and> Ticket.epic tk = Some ''CENPRO-42'') \<and>
   (\<exists>tk. normalizeTicket ticket_unresolved = Inr tk \<and> Ticket.epic tk = None)"
  using epic_resolution [of ticket_with_epic_link "\<lparr>name = ''Done''\<rparr>"]
    epic_resolution [of ticket_empty_epic_link "\<lparr>name = ''Done''\<rparr>"]
    epic_resolution [of ticket_unresolved "\<lparr>name = ''Done''\<rparr>"]
  by (simp add: example_tickets first_qualifying_key_def qualifying_keys_def)

text \<open>
  C9. A raw ticket whose status name is "Done" and whose resolution is missing is
  normalized to the status "Rejected", whatever its labels.
\<close>

theorem done_without_resolution:
  assumes "RawFields.status (RawTicket.fields' t) = Some st" and "name st = ''Done''"
      and "resolution (RawTicket.fields' t) = None"
  shows "\<exists>tk. normalizeTicket t = Inr tk \<and> Ticket.status tk = ''Rejected''"
  using assms
  by (auto simp: normalizeTicket_def epic_of_eq status_of_def split: option.splits)

theorem done_without_resolution_witness:
  "\<exists>tk. normalizeTicket ticket_unresolved = Inr tk \<and> Ticket.status tk = ''Rejected''"
  using done_without_resolution [of ticket_unresolved "\<lparr>name = ''Done''\<rparr>"]
  by (simp add: example_tickets)

text \<open>
  C10. When the epic-link field is present and is the empty string, the epic expression
  of line 101 has the value of the search of the issue links, and the whole normalization
  gives what it gives for the same ticket without the field.
\<close>

theorem empty_epic_link_ignored:
  assumes "customfield_10002 (RawTicket.fields' t) = Some []"
  shows "epic_of (RawTicket.fields' t)
           = Inr (first_qualifying_key (issuelinks (RawTicket.fields' t))) \<and>
         normalizeTicket t
           = normalizeTicket
               (t \<lparr> RawTicket.fields' := (RawTicket.fields' t) \<lparr> customfield_10002 := None \<rparr> \<rparr>)"
  using assms
  by (simp add: normalizeTicket_def epic_of_eq status_of_epic_link split: sum.splits)

theorem empty_epic_link_ignored_witness:
  "epic_of (RawTicket.fields' ticket_empty_epic_link) = Inr (Some ''CENPRO-42'') \<and>
   normalizeTicket ticket_empty_epic_link
     = normalizeTicket
         (ticket_empty_epic_link
            \<lparr> RawTicket.fields' :=
                (RawTicket.fields' ticket_empty_epic_link) \<lparr> customfield_10002 := None \<rparr> \<rparr>)"
  using empty_epic_link_ignored [of ticket_empty_epic_link]
  by (simp add: example_tickets first_qualifying_key_def qualifying_keys_def)

section \<open>The generic-issue projection and missing structures\<close>

lemma substring_prefix: "substring s 0 n = take n s"
  by (cases "n \<le> length s") (simp_all add: substring_def min_def)

text \<open>
  C7. For a ticket with a created timestamp, the projection succeeds, its \<open>created\<close> is
  the first 10 characters of that timestamp, and its \<open>resolved\<close> is the first 10
  characters of the resolved timestamp when there is one and undefined when there is
  none.
\<close>

theorem date_truncation:
  assumes "Ticket.created ticket = Some c"
  shows "\<exists>g. toGenericIssue ticket = Inr g \<and>
           GenericIssue.created g = take 10 c \<and>
           GenericIssue.resolved g = map_option (take 10) (Ticket.resolved ticket)"
  using assms by (simp add: toGenericIssue_def substring_prefix)

theorem date_truncation_witness:
  "(\<exists>g. toGenericIssue ticket_may = Inr g \<and> GenericIssue.created g = ''2023-05-01'' \<and>
         GenericIssue.resolved g = Some ''2023-06-15'') \<and>
   (\<exists>g. toGenericIssue (ticket_may \<lparr> Ticket.resolved := None \<rparr>) = Inr g \<and>
         GenericIssue.created g = ''2023-05-01'' \<and> GenericIssue.resolved g = None)"
  using date_truncation [of ticket_may "''2023-05-01T10:00:00.000Z''"]
    date_truncation [of "ticket_may \<lparr> Ticket.resolved := None \<rparr>" "''2023-05-01T10:00:00.000Z''"]
  by (simp add: ticket_may_def)

text \<open>
  C8, as stated, fails for two of the structures it lists: without \<open>status\<close> the
  normalization raises, and without \<open>created\<close> the normalization succeeds with an
  undefined \<open>created\<close> and the projection raises.
\<close>

theorem absent_status_or_created_counterexample:
  "normalizeTicket ticket_without_status = Inl TypeError \<and>
   map_sum id Ticket.created (normalizeTicket ticket_without_created) = Inr None \<and>
   map_sum id toGenericIssue (normalizeTicket ticket_without_created) = Inr (Inl TypeError)"
  by (simp add: example_tickets normalizeTicket_def epic_of_def linked_epic_def status_of_def
        toGenericIssue_def)

text \<open>
  C8, amended. For a raw ticket that has a status and a created timestamp, normalization
  and the projection succeed whichever of reporter, owner, resolution, issue links, labels
  and resolved timestamp are missing, and a missing reporter, owner or resolved timestamp
  gives an undefined \<open>reporter\<close>, \<open>svp\<close> or \<open>resolved\<close>; with neither issue links nor
  epic-link field the \<open>epic\<close> is undefined.
\<close>

theorem optional_structures_tolerated:
  assumes "RawFields.status (RawTicket.fields' t) = Some st"
      and "RawFields.created (RawTicket.fields' t) = Some c"
  shows "\<exists>tk g. normalizeTicket t = Inr tk \<and> toGenericIssue tk = Inr g \<and>
           (RawFields.reporter (RawTicket.fields' t) = None \<longrightarrow> Ticket.reporter tk = None) \<and>
           (customfield_28100 (RawTicket.fields' t) = None \<longrightarrow> Ticket.svp tk = None) \<and>
           (resolutiondate (RawTicket.fields' t) = None \<longrightarrow>
              Ticket.resolved tk = None \<and> GenericIssue.resolved g = None) \<and>
           (issuelinks (RawTicket.fields' t) = None \<and>
            customfield_10002 (RawTicket.fields' t) = None \<longrightarrow> Ticket.epic tk = None)"
  using assms
  by (auto simp: normalizeTicket_def epic_of_eq status_of_def toGenericIssue_def
        first_qualifying_key_def split: option.splits)

theorem optional_structures_tolerated_witness:
  "\<exists>tk g. normalizeTicket ticket_unresolved = Inr tk \<and> toGenericIssue tk = Inr g \<and>
     Ticket.reporter tk = None \<and> Ticket.svp tk = None \<and> Ticket.resolved tk = None \<and>
     GenericIssue.resolved g = None \<and> Ticket.epic tk = None"
  using optional_structures_tolerated
    [of ticket_unresolved "\<lparr>name = ''Done''\<rparr>" "''2023-05-01T10:00:00.000Z''"]
  by (simp add: example_tickets)

section \<open>Pagination\<close>

lemma readJiraPage_request:
  "readJiraPage client q (k * PAGE_SIZE) s = client (page_request q k) s"
  by (simp add: readJiraPage_def page_request_def PAGE_SIZE_def mult.commute)

lemma read_from:
  assumes pages: "\<forall>k<n. client (page_request q k) (\<sigma> k) = (Inr (Some (page k)), \<sigma> (Suc k))
                         \<and> page k \<noteq> []"
      and last: "client (page_request q n) (\<sigma> n) = (Inr final, s')"
                "final = None \<or> final = Some []"
      and "j \<le> n"
  shows "readAllJiraTickets_from client q (j * PAGE_SIZE) acc (\<sigma> j)
           = Some (Inr (acc @ concat (map page [j..<n])), s')"
  using \<open>j \<le> n\<close>
proof (induction "n - j" arbitrary: j acc)
  case 0
  then have "j = n" by simp
  with last show ?case
    by (subst readAllJiraTickets_from.simps) (auto simp: readJiraPage_request)
next
  case (Suc d)
  then have lt: "j < n" and d: "d = n - Suc j" and le: "Suc j \<le> n" by simp_all
  from pages lt have p: "client (page_request q j) (\<sigma> j) = (Inr (Some (page j)), \<sigma> (Suc j))"
    and ne: "page j \<noteq> []" by simp_all
  from ne obtain x xs where xs: "page j = x # xs" by (cases "page j") auto
  have "readAllJiraTickets_from client q (j * PAGE_SIZE) acc (\<sigma> j)
          = readAllJiraTickets_from client q (Suc j * PAGE_SIZE) (acc @ page j) (\<sigma> (Suc j))"
    by (subst readAllJiraTickets_from.simps) (simp add: readJiraPage_request p xs add.commute)
  also have "\<dots> = Some (Inr ((acc @ page j) @ concat (map page [Suc j..<n])), s')"
    using Suc.hyps(1) [OF d le] .
  also have "(acc @ page j) @ concat (map page [Suc j..<n]) = acc @ concat (map page [j..<n])"
    using lt by (simp add: upt_conv_Cons)
  finally show ?case .
qed

text \<open>
  C3. Let the remote side go through the states \<open>\<sigma> 0, \<sigma> 1, ...\<close>. If the requests for
  250 records at the offsets \<open>0, 250, ..., 250 * (n - 1)\<close>, made in this order, are answered
  with the non-empty pages \<open>page 0, ..., page (n - 1)\<close>, and the request at the offset
  \<open>250 * n\<close> with an empty or missing list, then the fetcher returns, its result is the
  concatenation of these pages in order, and the remote side is left in the state that
  follows the last of these \<open>n + 1\<close> requests.
\<close>

theorem pagination:
  assumes "\<forall>k<n. client (page_request q k) (\<sigma> k) = (Inr (Some (page k)), \<sigma> (Suc k))
                  \<and> page k \<noteq> []"
      and "client (page_request q n) (\<sigma> n) = (Inr final, s')"
      and "final = None \<or> final = Some []"
  shows "readAllJiraTickets client q (\<sigma> 0) = Some (Inr (concat (map page [0..<n])), s')"
  using read_from [OF assms, of 0 "[]"] by (simp add: readAllJiraTickets_def)

text \<open>Pages of 250, 250 and 0 records: 500 records, after three requests, at the offsets
  0, 250 and 500.\<close>

theorem pagination_witness:
  "\<exists>tickets. readAllJiraTickets two_pages ''type = Epic'' []
      = Some (Inr tickets, [page_request ''type = Epic'' 0, page_request ''type = Epic'' 1,
                            page_request ''type = Epic'' 2]) \<and>
     tickets = replicate 250 ticket_unresolved @ replicate 250 ticket_unresolved \<and>
     length tickets = 500 \<and>
     map startAt [page_request ''type = Epic'' 0, page_request ''type = Epic'' 1,
                  page_request ''type = Epic'' 2] = [0, 250, 500]"
proof -
  let ?q = "''type = Epic''"
  let ?\<sigma> = "\<lambda>k. map (page_request ?q) [0..<k]"
  let ?page = "\<lambda>k::nat. replicate 250 ticket_unresolved"
  have pages: "\<forall>k<2. two_pages (page_request ?q k) (?\<sigma> k) = (Inr (Some (?page k)), ?\<sigma> (Suc k))
                       \<and> ?page k \<noteq> []"
    by (simp add: two_pages_def)
  have last: "two_pages (page_request ?q 2) (?\<sigma> 2) = (Inr (Some []), ?\<sigma> 3)"
    by (simp add: two_pages_def upt_rec numeral_2_eq_2 numeral_3_eq_3)
  have "readAllJiraTickets two_pages ?q (?\<sigma> 0) = Some (Inr (concat (map ?page [0..<2])), ?\<sigma> 3)"
    using pagination [of 2 two_pages ?q ?\<sigma> ?page "Some []" "?\<sigma> 3", OF pages last] by simp
  then show ?thesis
    by (simp add: upt_rec numeral_2_eq_2 numeral_3_eq_3 page_request_def)
qed

section \<open>The loops of main\<close>

lemma for_each_append:
  "for_each body (xs @ ys) s =
     (case for_each body xs s of Inl e \<Rightarrow> Inl e | Inr s' \<Rightarrow> for_each body ys s')"
  by (induction xs arbitrary: s) (auto split: sum.splits)

lemma toGenericIssue_key: "toGenericIssue t = Inr g \<Longrightarrow> GenericIssue.key g = Ticket.key t"
  by (auto simp: toGenericIssue_def split: option.splits)

lemma store_own_keys: "map fst (props (store_own c k e)) = map fst (props c)"
  by (simp add: store_own_def comp_def if_distrib cong: if_cong map_cong)

lemma set_property_keys:
  "map fst (props (set_property c k e)) =
     (if k = ''__proto__'' \<or> k \<in> set (map fst (props c))
      then map fst (props c) else map fst (props c) @ [k])"
  unfolding set_property_def
  by (simp add: store_own_keys del: set_map)

lemma store_own_all:
  assumes "list_all P (props c)" and "P (k, e)"
  shows "list_all P (props (store_own c k e))"
  using assms by (auto simp: store_own_def list_all_iff)

lemma set_property_fresh:
  assumes "list_all fresh (props c)" and "fresh (k, e)"
  shows "list_all fresh (props (set_property c k e))"
  using assms store_own_all [of fresh c k e]
  by (simp add: set_property_def del: set_map)

lemma add_epic_keys:
  assumes "add_epic c t = Inr c'"
  shows "map fst (props c') =
           (if Ticket.key t = ''__proto__'' \<or> Ticket.key t \<in> set (map fst (props c))
            then map fst (props c) else map fst (props c) @ [Ticket.key t])"
proof -
  from assms obtain e where "c' = set_property c (Ticket.key t) e"
    by (auto simp: add_epic_def split: sum.splits)
  then show ?thesis by (simp only: set_property_keys)
qed

lemma add_epic_fresh:
  assumes "add_epic c t = Inr c'" and "list_all fresh (props c)"
  shows "list_all fresh (props c')"
proof -
  from assms(1) obtain e where c': "c' = set_property c (Ticket.key t) e"
    and e: "fresh (Ticket.key t, e)"
    by (auto simp: add_epic_def fresh_def toGenericIssue_key split: sum.splits)
  show ?thesis unfolding c' using assms(2) e by (rule set_property_fresh)
qed

lemma inserted_keys_snoc:
  "inserted_keys (ts @ [t]) =
     (if Ticket.key t = ''__proto__'' \<or> Ticket.key t \<in> set (inserted_keys ts)
      then inserted_keys ts else inserted_keys ts @ [Ticket.key t])"
  by (auto simp: inserted_keys_def)

lemma epics_loop:
  assumes "for_each add_epic epics \<lparr> props = [], proto = None \<rparr> = Inr c"
  shows "map fst (props c) = inserted_keys epics \<and> list_all fresh (props c)"
  using assms
proof (induction epics arbitrary: c rule: rev_induct)
  case Nil
  then show ?case by (auto simp: inserted_keys_def)
next
  case (snoc t ts)
  from snoc.prems obtain c1 where c1: "for_each add_epic ts \<lparr> props = [], proto = None \<rparr> = Inr c1"
    and step: "add_epic c1 t = Inr c"
    by (auto simp: for_each_append split: sum.splits)
  from snoc.IH [OF c1] have keys: "map fst (props c1) = inserted_keys ts" and fr: "list_all fresh (props c1)"
    by simp_all
  show ?case
    using add_epic_keys [OF step] add_epic_fresh [OF step fr] keys
    by (simp add: inserted_keys_snoc)
qed

lemma distinct_inserted_keys: "distinct (inserted_keys epics)"
  by (simp add: inserted_keys_def)

lemma inserted_keys_subset: "set (inserted_keys epics) \<subseteq> Ticket.key ` set epics"
  by (auto simp: inserted_keys_def)

lemma get_property_own:
  "get_property c k = OwnEpic e \<longleftrightarrow> map_of (props c) k = Some e"
  by (auto simp: get_property_def truthy_def epic_property_def split: option.splits if_splits)

lemma add_story_cases:
  assumes "add_story c s = Inr c'"
  shows "(map_of (props c) (property_key (Ticket.epic s)) = None \<and> props c' = props c) \<or>
         (\<exists>e g. map_of (props c) (property_key (Ticket.epic s)) = Some e \<and>
                 toGenericIssue s = Inr g \<and>
                 c' = store_own c (property_key (Ticket.epic s)) (e \<lparr> stories := stories e @ [g] \<rparr>))"
proof (cases "map_of (props c) (property_key (Ticket.epic s))")
  case None
  then have "\<forall>e. get_property c (property_key (Ticket.epic s)) \<noteq> OwnEpic e"
    by (simp add: get_property_own)
  with assms None show ?thesis
    by (auto simp: add_story_def split: Lookup.splits sum.splits)
next
  case (Some e)
  then have "get_property c (property_key (Ticket.epic s)) = OwnEpic e"
    by (simp add: get_property_own)
  with assms Some show ?thesis
    by (auto simp: add_story_def split: sum.splits)
qed

lemma issues_of_single:
  "issues_of (children_of k [s]) =
     (if property_key (Ticket.epic s) = k
      then (case toGenericIssue s of Inl e \<Rightarrow> [] | Inr g \<Rightarrow> [g]) else [])"
  by (simp add: issues_of_def children_of_def)

lemma add_story_props:
  assumes "add_story c s = Inr c'" and "distinct (map fst (props c))"
  shows "props c' =
           map (\<lambda>p. (fst p, (snd p) \<lparr> stories := stories (snd p) @ issues_of (children_of (fst p) [s]) \<rparr>))
               (props c)"
  using add_story_cases [OF assms(1)]
proof (elim disjE conjE exE)
  assume none: "map_of (props c) (property_key (Ticket.epic s)) = None" and eq: "props c' = props c"
  have "\<forall>p\<in>set (props c). fst p \<noteq> property_key (Ticket.epic s)"
    using none by (force simp: map_of_eq_None_iff)
  then show ?thesis
    unfolding eq by (intro map_idI [symmetric]) (auto simp: issues_of_single)
next
  fix e g
  assume some: "map_of (props c) (property_key (Ticket.epic s)) = Some e"
    and g: "toGenericIssue s = Inr g"
    and c': "c' = store_own c (property_key (Ticket.epic s)) (e \<lparr> stories := stories e @ [g] \<rparr>)"
  have "\<forall>p\<in>set (props c). fst p = property_key (Ticket.epic s) \<longrightarrow> snd p = e"
    using some assms(2) by (auto dest: map_of_SomeD eq_key_imp_eq_value)
  then show ?thesis
    unfolding c' store_own_def
    by (auto simp: issues_of_single g intro!: map_cong)
qed

lemma add_story_keys:
  assumes "add_story c s = Inr c'"
  shows "map fst (props c') = map fst (props c)"
  using add_story_cases [OF assms] by (auto simp: store_own_keys)

lemma children_of_Cons: "children_of k (s # ss) = children_of k [s] @ children_of k ss"
  by (simp add: children_of_def)

lemma issues_of_append: "issues_of (xs @ ys) = issues_of xs @ issues_of ys"
  by (simp add: issues_of_def)

lemma stories_loop:
  assumes "for_each add_story ss c = Inr c'" and "distinct (map fst (props c))"
  shows "props c' =
           map (\<lambda>p. (fst p, (snd p) \<lparr> stories := stories (snd p) @ issues_of (children_of (fst p) ss) \<rparr>))
               (props c)"
  using assms
proof (induction ss arbitrary: c)
  case Nil
  then show ?case by (simp add: issues_of_def children_of_def)
next
  case (Cons s ss)
  from Cons.prems(1) obtain c1 where step: "add_story c s = Inr c1"
    and rest: "for_each add_story ss c1 = Inr c'"
    by (auto split: sum.splits)
  have d1: "distinct (map fst (props c1))"
    using add_story_keys [OF step] Cons.prems(2) by simp
  show ?case
    unfolding Cons.IH [OF rest d1] add_story_props [OF step Cons.prems(2)]
    by (simp add: comp_def issues_of_append children_of_Cons [of _ s ss])
qed

lemma stories_loop_projects:
  assumes "for_each add_story ss c = Inr c'" and "s \<in> set ss"
      and "property_key (Ticket.epic s) \<in> set (map fst (props c))"
  shows "\<exists>g. toGenericIssue s = Inr g"
  using assms
proof (induction ss arbitrary: c)
  case Nil
  then show ?case by simp
next
  case (Cons x ss)
  from Cons.prems(1) obtain c1 where step: "add_story c x = Inr c1"
    and rest: "for_each add_story ss c1 = Inr c'"
    by (auto split: sum.splits)
  have keys: "map fst (props c1) = map fst (props c)" by (rule add_story_keys [OF step])
  show ?case
  proof (cases "s = x")
    case True
    with Cons.prems(3) have "map_of (props c) (property_key (Ticket.epic x)) \<noteq> None"
      by (simp add: map_of_eq_None_iff)
    with add_story_cases [OF step] True show ?thesis by auto
  next
    case False
    with Cons.prems(2) have "s \<in> set ss" by simp
    from Cons.IH [OF rest this] Cons.prems(3) keys show ?thesis by simp
  qed
qed

lemma add_scr_cases:
  assumes "add_scr c s = Inr c'"
  shows "(map_of (props c) (property_key (Ticket.epic s)) = None \<and> props c' = props c) \<or>
         (\<exists>e g. map_of (props c) (property_key (Ticket.epic s)) = Some e \<and>
                 toGenericIssue s = Inr g \<and>
                 c' = store_own c (property_key (Ticket.epic s))
                        (e \<lparr> scrs := scrs e @ [toScr g (Ticket.reporter s)] \<rparr>))"
proof (cases "map_of (props c) (property_key (Ticket.epic s))")
  case None
  then have "\<forall>e. get_property c (property_key (Ticket.epic s)) \<noteq> OwnEpic e"
    by (simp add: get_property_own)
  with assms None show ?thesis
    by (auto simp: add_scr_def split: Lookup.splits sum.splits)
next
  case (Some e)
  then have "get_property c (property_key (Ticket.epic s)) = OwnEpic e"
    by (simp add: get_property_own)
  with assms Some show ?thesis
    by (auto simp: add_scr_def split: sum.splits)
qed

lemma scrs_of_single:
  "scrs_of (children_of k [s]) =
     (if property_key (Ticket.epic s) = k
      then (case toGenericIssue s of Inl e \<Rightarrow> [] | Inr g \<Rightarrow> [toScr g (Ticket.reporter s)])
      else [])"
  by (simp add: scrs_of_def children_of_def)

lemma add_scr_props:
  assumes "add_scr c s = Inr c'" and "distinct (map fst (props c))"
  shows "props c' =
           map (\<lambda>p. (fst p, (snd p) \<lparr> scrs := scrs (snd p) @ scrs_of (children_of (fst p) [s]) \<rparr>))
               (props c)"
  using add_scr_cases [OF assms(1)]
proof (elim disjE conjE exE)
  assume none: "map_of (props c) (property_key (Ticket.epic s)) = None" and eq: "props c' = props c"
  have "\<forall>p\<in>set (props c). fst p \<noteq> property_key (Ticket.epic s)"
    using none by (force simp: map_of_eq_None_iff)
  then show ?thesis
    unfolding eq by (intro map_idI [symmetric]) (auto simp: scrs_of_single)
next
  fix e g
  assume some: "map_of (props c) (property_key (Ticket.epic s)) = Some e"
    and g: "toGenericIssue s = Inr g"
    and c': "c' = store_own c (property_key (Ticket.epic s))
                    (e \<lparr> scrs := scrs e @ [toScr g (Ticket.reporter s)] \<rparr>)"
  have "\<forall>p\<in>set (props c). fst p = property_key (Ticket.epic s) \<longrightarrow> snd p = e"
    using some assms(2) by (auto dest: map_of_SomeD eq_key_imp_eq_value)
  then show ?thesis
    unfolding c' store_own_def
    by (auto simp: scrs_of_single g intro!: map_cong)
qed

lemma add_scr_keys:
  assumes "add_scr c s = Inr c'"
  shows "map fst (props c') = map fst (props c)"
  using add_scr_cases [OF assms] by (auto simp: store_own_keys)

lemma scrs_of_append: "scrs_of (xs @ ys) = scrs_of xs @ scrs_of ys"
  by (simp add: scrs_of_def)

lemma scrs_loop:
  assumes "for_each add_scr ss c = Inr c'" and "distinct (map fst (props c))"
  shows "props c' =
           map (\<lambda>p. (fst p, (snd p) \<lparr> scrs := scrs (snd p) @ scrs_of (children_of (fst p) ss) \<rparr>))
               (props c)"
  using assms
proof (induction ss arbitrary: c)
  case Nil
  then show ?case by (simp add: scrs_of_def children_of_def)
next
  case (Cons s ss)
  from Cons.prems(1) obtain c1 where step: "add_scr c s = Inr c1"
    and rest: "for_each add_scr ss c1 = Inr c'"
    by (auto split: sum.splits)
  have d1: "distinct (map fst (props c1))"
    using add_scr_keys [OF step] Cons.prems(2) by simp
  show ?case
    unfolding Cons.IH [OF rest d1] add_scr_props [OF step Cons.prems(2)]
    by (simp add: comp_def scrs_of_append children_of_Cons [of _ s ss])
qed

lemma scrs_loop_projects:
  assumes "for_each add_scr ss c = Inr c'" and "s \<in> set ss"
      and "property_key (Ticket.epic s) \<in> set (map fst (props c))"
  shows "\<exists>g. toGenericIssue s = Inr g"
  using assms
proof (induction ss arbitrary: c)
  case Nil
  then show ?case by simp
next
  case (Cons x ss)
  from Cons.prems(1) obtain c1 where step: "add_scr c x = Inr c1"
    and rest: "for_each add_scr ss c1 = Inr c'"
    by (auto split: sum.splits)
  have keys: "map fst (props c1) = map fst (props c)" by (rule add_scr_keys [OF step])
  show ?case
  proof (cases "s = x")
    case True
    with Cons.prems(3) have "map_of (props c) (property_key (Ticket.epic x)) \<noteq> None"
      by (simp add: map_of_eq_None_iff)
    with add_scr_cases [OF step] True show ?thesis by auto
  next
    case False
    with Cons.prems(2) have "s \<in> set ss" by simp
    from Cons.IH [OF rest this] Cons.prems(3) keys show ?thesis by simp
  qed
qed

lemma stories_loop_keys:
  assumes "for_each add_story ss c = Inr c'"
  shows "map fst (props c') = map fst (props c)"
  using assms
proof (induction ss arbitrary: c)
  case Nil
  then show ?case by simp
next
  case (Cons s ss)
  then obtain c1 where "add_story c s = Inr c1" and "for_each add_story ss c1 = Inr c'"
    by (auto split: sum.splits)
  with Cons.IH [of c1] add_story_keys [of c s c1] show ?case by simp
qed

lemma scrs_loop_keys:
  assumes "for_each add_scr ss c = Inr c'"
  shows "map fst (props c') = map fst (props c)"
  using assms
proof (induction ss arbitrary: c)
  case Nil
  then show ?case by simp
next
  case (Cons s ss)
  then obtain c1 where "add_scr c s = Inr c1" and "for_each add_scr ss c1 = Inr c'"
    by (auto split: sum.splits)
  with Cons.IH [of c1] add_scr_keys [of c s c1] show ?case by simp
qed

lemma epics_loop_keys:
  assumes "for_each add_epic epics \<lparr> props = [], proto = None \<rparr> = Inr c"
  shows "set (map fst (props c)) \<subseteq> Ticket.key ` set epics"
  using epics_loop [OF assms] inserted_keys_subset [of epics] by simp

section \<open>The order of the flattened rows\<close>

lemma own_values_plain:
  assumes "\<forall>p\<in>set (props c). \<not> is_array_index (fst p)"
  shows "own_values c = map snd (props c)"
proof -
  have "filter (\<lambda>p. is_array_index (fst p)) (props c) = []"
    using assms by (simp add: filter_empty_conv)
  moreover have "filter (\<lambda>p. \<not> is_array_index (fst p)) (props c) = props c"
    using assms by (simp add: filter_id_conv)
  ultimately show ?thesis by (simp add: own_values_def)
qed

lemma list_all2_concat_map:
  assumes "\<forall>x\<in>set xs. list_all2 P (f x) (g x)"
  shows "list_all2 P (concat (map f xs)) (concat (map g xs))"
  using assms by (induction xs) (auto intro: list_all2_appendI)

lemma issues_of_projects:
  assumes "\<forall>t\<in>set ts. \<exists>g. toGenericIssue t = Inr g"
  shows "list_all2 (\<lambda>g t. toGenericIssue t = Inr g) (issues_of ts) ts"
  using assms by (induction ts) (auto simp: issues_of_def)

lemma scrs_of_projects:
  assumes "\<forall>t\<in>set ts. \<exists>g. toGenericIssue t = Inr g"
  shows "list_all2 (\<lambda>s t. toGenericIssue t = Inr (GenericIssue.truncate s) \<and>
                          Scr.reporter s = Ticket.reporter t) (scrs_of ts) ts"
  using assms
  by (induction ts) (auto simp: scrs_of_def toScr_def GenericIssue.truncate_def)

lemma main_rows_props:
  assumes "main_rows scrs' stories' epics = Inr rows"
  obtains c1 c3 :: Consolidated where "map fst (props c1) = inserted_keys epics"
    and "list_all fresh (props c1)"
    and "props c3 = map (\<lambda>p. (fst p, with_children scrs' stories' p)) (props c1)"
    and "rows = flatten c3"
    and "\<forall>t\<in>set stories'. property_key (Ticket.epic t) \<in> set (inserted_keys epics)
            \<longrightarrow> (\<exists>g. toGenericIssue t = Inr g)"
    and "\<forall>t\<in>set scrs'. property_key (Ticket.epic t) \<in> set (inserted_keys epics)
            \<longrightarrow> (\<exists>g. toGenericIssue t = Inr g)"
proof -
  from assms obtain c1 c2 c3 where
    l1: "for_each add_epic epics \<lparr> props = [], proto = None \<rparr> = Inr c1" and
    l2: "for_each add_story stories' c1 = Inr c2" and
    l3: "for_each add_scr scrs' c2 = Inr c3" and
    rows: "rows = flatten c3"
    by (auto simp: main_rows_def split: sum.splits)
  from epics_loop [OF l1] have keys: "map fst (props c1) = inserted_keys epics"
    and fr: "list_all fresh (props c1)" by simp_all
  have d1: "distinct (map fst (props c1))"
    by (simp add: keys distinct_inserted_keys)
  have p2: "props c2 =
      map (\<lambda>p. (fst p, (snd p) \<lparr> stories := stories (snd p) @ issues_of (children_of (fst p) stories') \<rparr>))
          (props c1)"
    by (rule stories_loop [OF l2 d1])
  have k2: "map fst (props c2) = map fst (props c1)"
    unfolding p2 by (simp add: comp_def)
  have d2: "distinct (map fst (props c2))" by (simp add: k2 d1)
  have p3: "props c3 = map (\<lambda>p. (fst p, with_children scrs' stories' p)) (props c1)"
    unfolding scrs_loop [OF l3 d2] p2 by (simp add: comp_def with_children_def)
  have s1: "\<forall>t\<in>set stories'. property_key (Ticket.epic t) \<in> set (inserted_keys epics)
            \<longrightarrow> (\<exists>g. toGenericIssue t = Inr g)"
    using stories_loop_projects [OF l2] keys by auto
  have s2: "\<forall>t\<in>set scrs'. property_key (Ticket.epic t) \<in> set (inserted_keys epics)
            \<longrightarrow> (\<exists>g. toGenericIssue t = Inr g)"
    using scrs_loop_projects [OF l3] keys k2 by auto
  show thesis by (rule that [OF keys fr p3 rows s1 s2])
qed

lemmas model_defs =
  main_rows_def add_epic_def add_story_def add_scr_def toGenericIssue_def substring_def
  set_property_def get_property_def store_own_def property_key_def flatten_def own_values_def
  is_array_index_def numeric_value_def toScr_def truthy_def object_prototype_names_def
  epic_property_def ticket_for_def

text \<open>
  C4, as stated, fails when epic keys are array indices: the epics \<open>2\<close> and \<open>1\<close>,
  inserted in this order, are listed by \<open>Object.values\<close> in the order \<open>1\<close>, \<open>2\<close>.
  The first list is the order of the rows that the code produces, the second the order
  that the claim describes.
\<close>

theorem array_index_keys_counterexample:
  "map_sum id (map row_keys)
     (main_rows [] [ticket_for ''S1'' (Some ''2''), ticket_for ''S2'' (Some ''1'')]
                   [ticket_for ''2'' None, ticket_for ''1'' None])
     = Inr [(''1'', ''Story'', ''S2''), (''2'', ''Story'', ''S1'')] \<and>
   map entry_keys
     (expected_order [] [ticket_for ''S1'' (Some ''2''), ticket_for ''S2'' (Some ''1'')]
                        [ticket_for ''2'' None, ticket_for ''1'' None])
     = [(''2'', ''Story'', ''S1''), (''1'', ''Story'', ''S2'')]"
  by (simp add: model_defs row_keys_def child_key_def entry_keys_def expected_order_def
        inserted_keys_def children_of_def)

text \<open>
  C4, amended. When no epic key is an array index and \<open>main\<close> produces rows, the rows
  are, in this order: for the "Story" type and then for the "SCR" type, epic by epic in
  the order in which the epic keys were first encountered, the projections of the
  tickets that name the epic, in the order of their list.
\<close>

theorem flattened_order:
  assumes plain: "\<forall>e\<in>set epics. \<not> is_array_index (Ticket.key e)"
      and main: "main_rows scrs' stories' epics = Inr rows"
  shows "list_all2 row_of rows (expected_order scrs' stories' epics)"
proof -
  from main obtain c1 c3 :: Consolidated where
    keys: "map fst (props c1) = inserted_keys epics" and
    fr: "list_all fresh (props c1)" and
    p3: "props c3 = map (\<lambda>p. (fst p, with_children scrs' stories' p)) (props c1)" and
    rows: "rows = flatten c3" and
    s1: "\<forall>t\<in>set stories'. property_key (Ticket.epic t) \<in> set (inserted_keys epics)
            \<longrightarrow> (\<exists>g. toGenericIssue t = Inr g)" and
    s2: "\<forall>t\<in>set scrs'. property_key (Ticket.epic t) \<in> set (inserted_keys epics)
            \<longrightarrow> (\<exists>g. toGenericIssue t = Inr g)"
    by (rule main_rows_props [of scrs' stories' epics rows])
  have in_keys: "fst p \<in> set (inserted_keys epics)" if "p \<in> set (props c1)" for p
    using that keys by (metis image_eqI set_map)
  have not_index: "\<not> is_array_index k" if "k \<in> set (inserted_keys epics)" for k
    using that plain inserted_keys_subset [of epics] by blast
  have "\<forall>p\<in>set (props c3). \<not> is_array_index (fst p)"
    unfolding p3 by (auto dest!: in_keys not_index)
  then have own: "own_values c3 = map (with_children scrs' stories') (props c1)"
    by (simp add: own_values_plain p3 comp_def)
  let ?story = "\<lambda>e g. \<lparr> Row.epic = e, Row.type = ''Story'', child = StoryChild g \<rparr>"
  let ?scr = "\<lambda>e s. \<lparr> Row.epic = e, Row.type = ''SCR'', child = ScrChild s \<rparr>"
  let ?e = "with_children scrs' stories'"
  have flat: "rows =
      concat (map (\<lambda>p. map (?story (?e p)) (stories (?e p))) (props c1))
      @ concat (map (\<lambda>p. map (?scr (?e p)) (scrs (?e p))) (props c1))"
    by (simp add: rows flatten_def own comp_def)
  have expected: "expected_order scrs' stories' epics =
      concat (map (\<lambda>p. map (\<lambda>t. (fst p, ''Story'', t)) (children_of (fst p) stories')) (props c1))
      @ concat (map (\<lambda>p. map (\<lambda>t. (fst p, ''SCR'', t)) (children_of (fst p) scrs')) (props c1))"
    by (simp add: expected_order_def keys [symmetric] comp_def)
  have story_rows:
    "list_all2 row_of (map (?story (?e p)) (stories (?e p)))
                      (map (\<lambda>t. (fst p, ''Story'', t)) (children_of (fst p) stories'))"
    if p: "p \<in> set (props c1)" for p
  proof -
    from fr p have f: "fresh p" by (simp add: list_all_iff)
    have "\<forall>t\<in>set (children_of (fst p) stories'). \<exists>g. toGenericIssue t = Inr g"
      using s1 in_keys [OF p] by (auto simp: children_of_def)
    from issues_of_projects [OF this] f show ?thesis
      by (simp add: list_all2_map1 list_all2_map2 row_of_def with_children_def fresh_def)
  qed
  have scr_rows:
    "list_all2 row_of (map (?scr (?e p)) (scrs (?e p)))
                      (map (\<lambda>t. (fst p, ''SCR'', t)) (children_of (fst p) scrs'))"
    if p: "p \<in> set (props c1)" for p
  proof -
    from fr p have f: "fresh p" by (simp add: list_all_iff)
    have "\<forall>t\<in>set (children_of (fst p) scrs'). \<exists>g. toGenericIssue t = Inr g"
      using s2 in_keys [OF p] by (auto simp: children_of_def)
    from scrs_of_projects [OF this] f show ?thesis
      by (simp add: list_all2_map1 list_all2_map2 row_of_def with_children_def fresh_def)
  qed
  show ?thesis
    unfolding flat expected
    by (intro list_all2_appendI list_all2_concat_map ballI story_rows scr_rows)
qed

theorem flattened_order_witness:
  "\<exists>rows. main_rows example_scrs example_stories example_epics = Inr rows \<and>
     list_all2 row_of rows
       [(''CENPRO-2'', ''Story'', ticket_for ''CENPRO-12'' (Some ''CENPRO-2'')),
        (''CENPRO-1'', ''Story'', ticket_for ''CENPRO-11'' (Some ''CENPRO-1'')),
        (''CENPRO-1'', ''Story'', ticket_for ''CENPRO-13'' (Some ''CENPRO-1'')),
        (''CENPRO-2'', ''SCR'', ticket_for ''CENPRO-21'' (Some ''CENPRO-2''))]"
proof -
  have "\<exists>rows. main_rows example_scrs example_stories example_epics = Inr rows"
    by (simp add: model_defs example_epics_def example_stories_def example_scrs_def)
  then obtain rows where rows: "main_rows example_scrs example_stories example_epics = Inr rows"
    by blast
  have plain: "\<forall>e\<in>set example_epics. \<not> is_array_index (Ticket.key e)"
    by (simp add: example_epics_def is_array_index_def ticket_for_def)
  have "expected_order example_scrs example_stories example_epics =
       [(''CENPRO-2'', ''Story'', ticket_for ''CENPRO-12'' (Some ''CENPRO-2'')),
        (''CENPRO-1'', ''Story'', ticket_for ''CENPRO-11'' (Some ''CENPRO-1'')),
        (''CENPRO-1'', ''Story'', ticket_for ''CENPRO-13'' (Some ''CENPRO-1'')),
        (''CENPRO-2'', ''SCR'', ticket_for ''CENPRO-21'' (Some ''CENPRO-2''))]"
    by (simp add: expected_order_def inserted_keys_def children_of_def property_key_def
          example_epics_def example_stories_def example_scrs_def ticket_for_def)
  with flattened_order [OF plain rows] rows show ?thesis by simp
qed

section \<open>Children without a known epic\<close>

lemma get_property_falsy:
  assumes "k \<notin> set (map fst (props c))" and "\<not> inherited_name k"
  shows "get_property c k = Falsy"
proof -
  from assms(1) have "map_of (props c) k = None" by (simp add: map_of_eq_None_iff)
  moreover from assms(2) have "epic_property p k = None" for p
    by (simp add: epic_property_def inherited_name_def)
  moreover from assms(2) have "k \<noteq> ''__proto__''" and "k \<notin> set object_prototype_names"
    by (auto simp: inherited_name_def object_prototype_names_def)
  ultimately show ?thesis
    by (simp add: get_property_def truthy_def split: option.splits)
qed

lemma unmatched_story_dropped:
  assumes "property_key (Ticket.epic s) \<notin> Ticket.key ` set epics"
      and "\<not> inherited_name (property_key (Ticket.epic s))"
  shows "main_rows scrs' (xs @ s # ys) epics = main_rows scrs' (xs @ ys) epics"
proof (cases "for_each add_epic epics \<lparr> props = [], proto = None \<rparr>")
  case (Inl e)
  then show ?thesis by (simp add: main_rows_def)
next
  case (Inr c1)
  have loop: "for_each add_story (xs @ s # ys) c1 = for_each add_story (xs @ ys) c1"
  proof (cases "for_each add_story xs c1")
    case (Inl e)
    then show ?thesis by (simp add: for_each_append)
  next
    case (Inr cx)
    have "set (map fst (props cx)) \<subseteq> Ticket.key ` set epics"
      using stories_loop_keys [OF Inr] epics_loop_keys [OF \<open>for_each add_epic epics _ = Inr c1\<close>]
      by simp
    with assms(1) have "property_key (Ticket.epic s) \<notin> set (map fst (props cx))" by blast
    from get_property_falsy [OF this assms(2)] have "add_story cx s = Inr cx"
      by (simp add: add_story_def)
    with Inr show ?thesis by (simp add: for_each_append)
  qed
  show ?thesis by (simp add: main_rows_def Inr loop)
qed

lemma unmatched_scr_dropped:
  assumes "property_key (Ticket.epic s) \<notin> Ticket.key ` set epics"
      and "\<not> inherited_name (property_key (Ticket.epic s))"
  shows "main_rows (xs @ s # ys) stories' epics = main_rows (xs @ ys) stories' epics"
proof (cases "for_each add_epic epics \<lparr> props = [], proto = None \<rparr>")
  case (Inl e)
  then show ?thesis by (simp add: main_rows_def)
next
  case c1: (Inr c1)
  show ?thesis
  proof (cases "for_each add_story stories' c1")
    case (Inl e)
    then show ?thesis by (simp add: main_rows_def c1)
  next
    case c2: (Inr c2)
    have loop: "for_each add_scr (xs @ s # ys) c2 = for_each add_scr (xs @ ys) c2"
    proof (cases "for_each add_scr xs c2")
      case (Inl e)
      then show ?thesis by (simp add: for_each_append)
    next
      case (Inr cx)
      have "set (map fst (props cx)) \<subseteq> Ticket.key ` set epics"
        using scrs_loop_keys [OF Inr] stories_loop_keys [OF c2] epics_loop_keys [OF c1]
        by simp
      with assms(1) have "property_key (Ticket.epic s) \<notin> set (map fst (props cx))" by blast
      from get_property_falsy [OF this assms(2)] have "add_scr cx s = Inr cx"
        by (simp add: add_scr_def)
      with Inr show ?thesis by (simp add: for_each_append)
    qed
    show ?thesis by (simp add: main_rows_def c1 c2 loop)
  qed
qed

text \<open>
  C5, as stated, fails for a child whose epic is the name of a property that the mapping
  object inherits: \<open>consolidated['constructor']\<close> is truthy without any epic of that
  key, and \<open>push\<close> on its missing \<open>stories\<close> raises.
\<close>

theorem inherited_name_raises:
  "main_rows [] [ticket_for ''S1'' (Some ''constructor'')] [] = Inl TypeError"
  by (simp add: model_defs)

lemma end_to_end_scenario:
  "map_sum id (map row_keys)
     (main_rows [ticket_for ''C1'' (Some ''E1'')]
                [ticket_for ''S1'' (Some ''E1''), ticket_for ''S2'' (Some ''E2'')]
                [ticket_for ''E1'' None])
     = Inr [(''E1'', ''Story'', ''S1''), (''E1'', ''SCR'', ''C1'')]"
  by (simp add: model_defs row_keys_def child_key_def)

text \<open>
  C5, amended. A story or clarification request whose epic, read as a property name
  (\<open>undefined\<close> for a missing one), is neither the key of a fetched epic nor a name that
  the mapping object inherits contributes no row and causes no error: the result of
  \<open>main\<close> is the same with the ticket, at any place of its list, and without it.
\<close>

theorem unmatched_children_dropped:
  assumes "property_key (Ticket.epic t) \<notin> Ticket.key ` set epics"
      and "\<not> inherited_name (property_key (Ticket.epic t))"
  shows "main_rows scrs' (xs @ t # ys) epics = main_rows scrs' (xs @ ys) epics \<and>
         main_rows (xs @ t # ys) stories' epics = main_rows (xs @ ys) stories' epics"
  using unmatched_story_dropped [OF assms] unmatched_scr_dropped [OF assms] by simp

text \<open>One epic E1, the stories S1 (of E1) and S2 (of the unknown E2) and the clarification
  request C1 (of E1): two rows, S1 and C1 under E1, as without S2.\<close>

theorem unmatched_children_dropped_witness:
  "main_rows [ticket_for ''C1'' (Some ''E1'')]
             [ticket_for ''S1'' (Some ''E1''), ticket_for ''S2'' (Some ''E2'')] [ticket_for ''E1'' None]
     = main_rows [ticket_for ''C1'' (Some ''E1'')] [ticket_for ''S1'' (Some ''E1'')] [ticket_for ''E1'' None] \<and>
   map_sum id (map row_keys)
     (main_rows [ticket_for ''C1'' (Some ''E1'')]
                [ticket_for ''S1'' (Some ''E1''), ticket_for ''S2'' (Some ''E2'')] [ticket_for ''E1'' None])
     = Inr [(''E1'', ''Story'', ''S1''), (''E1'', ''SCR'', ''C1'')]"
proof -
  have unknown: "property_key (Ticket.epic (ticket_for ''S2'' (Some ''E2'')))
                   \<notin> Ticket.key ` set [ticket_for ''E1'' None]"
    by (simp add: property_key_def ticket_for_def)
  have plain: "\<not> inherited_name (property_key (Ticket.epic (ticket_for ''S2'' (Some ''E2''))))"
    by (simp add: inherited_name_def object_prototype_names_def property_key_def ticket_for_def)
  from unmatched_children_dropped [OF unknown plain, of "[ticket_for ''C1'' (Some ''E1'')]"
      "[ticket_for ''S1'' (Some ''E1'')]" "[]"] end_to_end_scenario
  show ?thesis by simp
qed

section \<open>Epics without children\<close>

lemma set_own_values: "set (own_values c) = snd ` set (props c)"
  by (auto simp: own_values_def)

lemma flatten_row:
  assumes "r \<in> set (flatten c)"
  shows "Row.epic r \<in> set (own_values c) \<and>
         (stories (Row.epic r) \<noteq> [] \<or> scrs (Row.epic r) \<noteq> [])"
  using assms by (auto simp: flatten_def)

text \<open>
  C6. An epic of the mapping whose \<open>stories\<close> and \<open>scrs\<close> are both empty is the epic of
  no row of the flattened output.
\<close>

theorem childless_epic_omitted:
  assumes "e \<in> set (own_values c)" and "stories e = []" and "scrs e = []"
  shows "filter (\<lambda>r. Row.epic r = e) (flatten c) = []"
  using assms by (auto simp: flatten_def filter_empty_conv)

theorem childless_epic_omitted_witness:
  "childless_epic \<in> set (own_values example_mapping) \<and>
   filter (\<lambda>r. Row.epic r = childless_epic) (flatten example_mapping) = [] \<and>
   map row_keys (flatten example_mapping) = [(''CENPRO-1'', ''Story'', ''CENPRO-11'')]"
proof -
  have own: "childless_epic \<in> set (own_values example_mapping)"
    by (simp add: own_values_def example_mapping_def childless_epic_def is_array_index_def)
  have rows: "map row_keys (flatten example_mapping) = [(''CENPRO-1'', ''Story'', ''CENPRO-11'')]"
    by (simp add: flatten_def own_values_def example_mapping_def is_array_index_def
          row_keys_def child_key_def)
  from childless_epic_omitted [OF own] own rows show ?thesis
    by (simp add: childless_epic_def)
qed

text \<open>
  From the fetched lists to the rows: when \<open>main\<close> produces rows and no story and no
  clarification request names the key \<open>k\<close>, no row has an epic of that key, whether or
  not an epic ticket of that key was fetched.
\<close>

lemma childless_epic_end_to_end:
  assumes main: "main_rows scrs' stories' epics = Inr rows"
      and "children_of k stories' = []" and "children_of k scrs' = []"
  shows "filter (\<lambda>r. GenericIssue.key (Row.epic r) = k) rows = []"
proof -
  from main obtain c1 c3 :: Consolidated where
    fr: "list_all fresh (props c1)" and
    p3: "props c3 = map (\<lambda>p. (fst p, with_children scrs' stories' p)) (props c1)" and
    rows: "rows = flatten c3"
    by (rule main_rows_props [of scrs' stories' epics rows])
  have "GenericIssue.key (Row.epic r) \<noteq> k" if "r \<in> set rows" for r
  proof
    assume k: "GenericIssue.key (Row.epic r) = k"
    from that rows flatten_row [of r c3]
    have own: "Row.epic r \<in> snd ` set (props c3)"
      and ne: "stories (Row.epic r) \<noteq> [] \<or> scrs (Row.epic r) \<noteq> []"
      by (simp_all add: set_own_values)
    from own obtain p where p: "p \<in> set (props c1)"
      and r: "Row.epic r = with_children scrs' stories' p"
      unfolding p3 by auto
    from fr p have f: "fresh p" by (simp add: list_all_iff)
    with k r have "fst p = k" by (simp add: fresh_def with_children_def)
    with f ne assms(2,3) show False
      unfolding r by (simp add: fresh_def with_children_def issues_of_def scrs_of_def)
  qed
  then show ?thesis by (simp add: filter_empty_conv)
qed

end
